theory Spec2Isabelle
  imports Complex_Main
begin

section \<open>Data model of \<^verbatim>\<open>ab_testing/experiment.py\<close>\<close>

text \<open>
  Python's \<^verbatim>\<open>float\<close> is modelled by \<^typ>\<open>real\<close> (exact arithmetic, no rounding, no
  NaN, no infinities) and Python's unbounded \<^verbatim>\<open>int\<close> by \<^typ>\<open>int\<close>. Every exception the
  modelled code can raise is a value of \<open>error\<close>; a fallible computation returns
  \<open>error + 'a\<close> with \<open>Inl\<close> carrying the exception.
\<close>

datatype error =
    ValueError string
  | ZeroDivisionError
  | IndexError

text \<open>
  The dataclass \<^verbatim>\<open>Variant\<close>. The values of the \<^verbatim>\<open>metadata\<close> dictionary have Python
  type \<^verbatim>\<open>Any\<close>; no modelled operation reads them, and they are kept as strings.
\<close>

record Variant =
  name :: string
  weight :: real
  conversions :: int
  exposures :: int
  metadata :: "string \<rightharpoonup> string"

text \<open>
  The generated constructor of the dataclass, with the defaults of its fields:
  \<^verbatim>\<open>weight = 1.0\<close>, \<^verbatim>\<open>conversions = 0\<close>, \<^verbatim>\<open>exposures = 0\<close>, \<^verbatim>\<open>metadata = {}\<close>.
\<close>

definition Variant_init :: "string \<Rightarrow> real option \<Rightarrow> Variant" where
  "Variant_init nm w =
     \<lparr>name = nm, weight = (case w of None \<Rightarrow> 1 | Some x \<Rightarrow> x),
      conversions = 0, exposures = 0, metadata = Map.empty\<rparr>"

text \<open>
  Variant objects are mutable and shared by reference between the caller and the
  experiment that was built from them. An object is an address in a store; the list an
  experiment holds is a list of addresses, which may name the same object twice.
\<close>

type_synonym addr = nat
type_synonym store = "addr \<Rightarrow> Variant"

text \<open>
  The class \<^verbatim>\<open>Experiment\<close>. The field \<open>random_state\<close> is the state of the private
  generator \<^verbatim>\<open>self._random\<close>; its type \<open>'g\<close> and its operations are parameters of
  the model.
\<close>

record 'g Experiment =
  name :: string
  variants :: "addr list"
  created_at :: nat
  random_state :: 'g

section \<open>Python arithmetic that can raise\<close>

text \<open>\<^verbatim>\<open>a / b\<close> on two ints: true division, \<^verbatim>\<open>ZeroDivisionError\<close> when \<open>b = 0\<close>.\<close>

definition int_truediv :: "int \<Rightarrow> int \<Rightarrow> error + real" where
  "int_truediv a b =
     (if b = 0 then Inl ZeroDivisionError else Inr (real_of_int a / real_of_int b))"

text \<open>\<^verbatim>\<open>x / y\<close> on two floats: \<^verbatim>\<open>ZeroDivisionError\<close> when \<open>y = 0\<close>.\<close>

definition float_truediv :: "real \<Rightarrow> real \<Rightarrow> error + real" where
  "float_truediv x y = (if y = 0 then Inl ZeroDivisionError else Inr (x / y))"

text \<open>\<^verbatim>\<open>math.sqrt(x)\<close>: \<^verbatim>\<open>ValueError: math domain error\<close> when \<open>x < 0\<close>.\<close>

definition math_sqrt :: "real \<Rightarrow> error + real" where
  "math_sqrt x = (if x < 0 then Inl (ValueError ''math domain error'') else Inr (sqrt x))"

text \<open>Sequencing of fallible steps: the first exception raised is the result.\<close>

definition then_do :: "error + 'a \<Rightarrow> ('a \<Rightarrow> error + 'b) \<Rightarrow> error + 'b" where
  "then_do m f = (case m of Inl e \<Rightarrow> Inl e | Inr x \<Rightarrow> f x)"

section \<open>\<^verbatim>\<open>Variant\<close>\<close>

text \<open>
  \<^verbatim>\<open>Variant.conversion_rate\<close> (experiment.py, lines 30--35): the guard returns
  \<open>0.0\<close> before the division is reached.
\<close>

definition conversion_rate :: "Variant \<Rightarrow> error + real" where
  "conversion_rate self =
     (if exposures self = 0 then Inr 0
      else int_truediv (conversions self) (exposures self))"

text \<open>\<^verbatim>\<open>Variant.record_exposure\<close> and \<^verbatim>\<open>Variant.record_conversion\<close> (lines 37--43).\<close>

definition record_exposure :: "Variant \<Rightarrow> Variant" where
  "record_exposure self = self\<lparr>exposures := exposures self + 1\<rparr>"

definition Variant_record_conversion :: "Variant \<Rightarrow> Variant" where
  "Variant_record_conversion self = self\<lparr>conversions := conversions self + 1\<rparr>"

section \<open>\<^verbatim>\<open>Experiment.__init__\<close>\<close>

text \<open>
  Lines 81--82: the loop \<^verbatim>\<open>for variant in self.variants: variant.weight =
  variant.weight / total_weight\<close>. It writes to the store one object at a time, so an
  exception in the middle would leave the earlier writes in place: the loop returns the
  store it reached together with the exception, if any.
\<close>

fun normalize_weights :: "real \<Rightarrow> addr list \<Rightarrow> store \<Rightarrow> error option \<times> store" where
  "normalize_weights total_weight [] s = (None, s)"
| "normalize_weights total_weight (a # as) s =
     (case float_truediv (weight (s a)) total_weight of
        Inl e \<Rightarrow> (Some e, s)
      | Inr w \<Rightarrow> normalize_weights total_weight as (s(a := (s a)\<lparr>weight := w\<rparr>)))"

text \<open>Line 77: \<^verbatim>\<open>sum(v.weight for v in self.variants)\<close>.\<close>

definition total_weight_of :: "store \<Rightarrow> addr list \<Rightarrow> real" where
  "total_weight_of s vs = sum_list (map (\<lambda>a. weight (s a)) vs)"

text \<open>
  Lines 68--82. \<open>Random\<close> is \<^verbatim>\<open>random.Random\<close> (seed to generator state) and \<open>now\<close>
  the value of \<^verbatim>\<open>datetime.now()\<close>. The result is the constructed experiment or the
  exception, and the store as the constructor leaves it.
\<close>

definition Experiment_init ::
  "(int option \<Rightarrow> 'g) \<Rightarrow> nat \<Rightarrow> string \<Rightarrow> addr list \<Rightarrow> int option \<Rightarrow> store
     \<Rightarrow> (error + 'g Experiment) \<times> store" where
  "Experiment_init Random now nm vs seed s =
     (if length vs < 2 then
        (Inl (ValueError ''Experiment must have at least 2 variants''), s)
      else
        let self = \<lparr>name = nm, variants = vs, created_at = now, random_state = Random seed\<rparr>;
            total_weight = total_weight_of s (variants self)
        in if total_weight \<le> 0 then
             (Inl (ValueError ''Total weight must be positive''), s)
           else
             (case normalize_weights total_weight (variants self) s of
                (Some e, s') \<Rightarrow> (Inl e, s')
              | (None, s') \<Rightarrow> (Inr self, s')))"

section \<open>\<^verbatim>\<open>Experiment.assign_variant\<close>\<close>

text \<open>
  Lines 95--96: \<^verbatim>\<open>hash_val = hash(user_id + self.name)\<close>,
  \<^verbatim>\<open>rand_val = (hash_val % 10000) / 10000\<close>. The builtin \<^verbatim>\<open>hash\<close> is the parameter
  \<open>hash\<close>, a function from strings to ints. Python's \<^verbatim>\<open>%\<close> with a positive modulus
  is the floor remainder, as \<open>mod\<close> on \<^typ>\<open>int\<close>.
\<close>

definition hashed_rand_val :: "(string \<Rightarrow> int) \<Rightarrow> string \<Rightarrow> string \<Rightarrow> real" where
  "hashed_rand_val hash user_id nm =
     (let hash_val = hash (user_id @ nm) in real_of_int (hash_val mod 10000) / 10000)"

text \<open>
  Lines 93--99: the drawn value and the generator state after the draw. \<open>random\<close> is
  \<^verbatim>\<open>random.Random.random\<close>.
\<close>

definition draw_rand_val ::
  "(string \<Rightarrow> int) \<Rightarrow> ('g \<Rightarrow> real \<times> 'g) \<Rightarrow> 'g Experiment \<Rightarrow> string option \<Rightarrow> real \<times> 'g" where
  "draw_rand_val hash random self user_id =
     (case user_id of
        Some uid \<Rightarrow> (hashed_rand_val hash uid (Experiment.name self), random_state self)
      | None \<Rightarrow> random (random_state self))"

text \<open>
  Lines 101--106: the bucketing loop. It returns at the first variant whose cumulative
  weight reaches \<open>rand_val\<close>; \<open>None\<close> means the loop ran to its end.
\<close>

fun first_bucket :: "real \<Rightarrow> real \<Rightarrow> addr list \<Rightarrow> store \<Rightarrow> addr option" where
  "first_bucket rand_val cumulative_weight [] s = None"
| "first_bucket rand_val cumulative_weight (a # as) s =
     (let cumulative_weight = cumulative_weight + weight (s a)
      in if rand_val \<le> cumulative_weight then Some a
         else first_bucket rand_val cumulative_weight as s)"

text \<open>
  The cumulative weight of the first \<open>k\<close> variants of the list, the value the loop
  variable \<^verbatim>\<open>cumulative_weight\<close> holds after \<open>k\<close> iterations.
\<close>

definition cumulative_weight :: "store \<Rightarrow> addr list \<Rightarrow> nat \<Rightarrow> real" where
  "cumulative_weight s vs k = total_weight_of s (take k vs)"

text \<open>
  Lines 93--111. The fallback reads \<^verbatim>\<open>self.variants[-1]\<close>, which raises
  \<^verbatim>\<open>IndexError\<close> on an empty list. The result is the assigned object (or the
  exception), the experiment with its generator advanced, and the store.
\<close>

definition assign_variant ::
  "(string \<Rightarrow> int) \<Rightarrow> ('g \<Rightarrow> real \<times> 'g) \<Rightarrow> 'g Experiment \<Rightarrow> string option \<Rightarrow> store
     \<Rightarrow> (error + addr) \<times> 'g Experiment \<times> store" where
  "assign_variant hash random self user_id s =
     (let (rand_val, g) = draw_rand_val hash random self user_id;
          self' = self\<lparr>random_state := g\<rparr>
      in case first_bucket rand_val 0 (variants self) s of
           Some a \<Rightarrow> (Inr a, self', s(a := record_exposure (s a)))
         | None \<Rightarrow>
             (if variants self = [] then (Inl IndexError, self', s)
              else let a = last (variants self)
                   in (Inr a, self', s(a := record_exposure (s a)))))"

section \<open>\<^verbatim>\<open>Experiment.record_conversion\<close>\<close>

text \<open>Lines 122--126: the first variant carrying the name is updated.\<close>

fun record_conversion_loop :: "addr list \<Rightarrow> string \<Rightarrow> store \<Rightarrow> bool \<times> store" where
  "record_conversion_loop [] variant_name s = (False, s)"
| "record_conversion_loop (a # as) variant_name s =
     (if Variant.name (s a) = variant_name
      then (True, s(a := Variant_record_conversion (s a)))
      else record_conversion_loop as variant_name s)"

definition record_conversion :: "'g Experiment \<Rightarrow> string \<Rightarrow> store \<Rightarrow> bool \<times> store" where
  "record_conversion self variant_name s =
     record_conversion_loop (variants self) variant_name s"

section \<open>\<^verbatim>\<open>ab_testing/statistics.py\<close>\<close>

text \<open>
  \<^verbatim>\<open>z_test_proportions\<close> (lines 38--63). \<open>norm_cdf\<close> is \<^verbatim>\<open>scipy.stats.norm.cdf\<close>.
\<close>

definition z_test_proportions ::
  "(real \<Rightarrow> real) \<Rightarrow> int \<Rightarrow> int \<Rightarrow> int \<Rightarrow> int \<Rightarrow> bool \<Rightarrow> error + real \<times> real \<times> real" where
  "z_test_proportions norm_cdf conversions_a exposures_a conversions_b exposures_b two_tailed =
     (if exposures_a \<le> 0 \<or> exposures_b \<le> 0 then
        Inl (ValueError ''Exposures must be positive'')
      else
        then_do (int_truediv conversions_a exposures_a) (\<lambda>p_a.
        then_do (int_truediv conversions_b exposures_b) (\<lambda>p_b.
        then_do (int_truediv (conversions_a + conversions_b) (exposures_a + exposures_b)) (\<lambda>p_pooled.
        then_do (int_truediv 1 exposures_a) (\<lambda>inv_a.
        then_do (int_truediv 1 exposures_b) (\<lambda>inv_b.
        then_do (math_sqrt (p_pooled * (1 - p_pooled) * (inv_a + inv_b))) (\<lambda>se.
          if se = 0 then Inr (0, 1, 0)
          else
            then_do (float_truediv (p_a - p_b) se) (\<lambda>z_score.
              let p_value = (if two_tailed then 2 * (1 - norm_cdf \<bar>z_score\<bar>)
                             else 1 - norm_cdf z_score)
              in Inr (z_score, p_value, se)))))))))"

text \<open>
  \<^verbatim>\<open>calculate_confidence_interval\<close> (lines 200--221). \<open>norm_ppf\<close> is
  \<^verbatim>\<open>scipy.stats.norm.ppf\<close>. The parameters \<^verbatim>\<open>conversions\<close> and \<^verbatim>\<open>exposures\<close> are
  primed, since the unprimed names are the fields of \<open>Variant\<close>.
\<close>

definition calculate_confidence_interval ::
  "(real \<Rightarrow> real) \<Rightarrow> int \<Rightarrow> int \<Rightarrow> real \<Rightarrow> error + real \<times> real" where
  "calculate_confidence_interval norm_ppf conversions' exposures' confidence_level =
     (if exposures' \<le> 0 then Inl (ValueError ''Exposures must be positive'')
      else if conversions' < 0 \<or> conversions' > exposures' then
        Inl (ValueError ''Conversions must be between 0 and exposures'')
      else if \<not> (0 < confidence_level \<and> confidence_level < 1) then
        Inl (ValueError ''Confidence level must be between 0 and 1'')
      else
        then_do (int_truediv conversions' exposures') (\<lambda>p.
        let n = real_of_int exposures';
            z = norm_ppf (1 - (1 - confidence_level) / 2);
            z_squared = z ^ 2
        in
        then_do (float_truediv z_squared n) (\<lambda>zn.
        let denominator = 1 + zn in
        then_do (float_truediv z_squared (2 * n)) (\<lambda>z2n.
        then_do (float_truediv (p + z2n) denominator) (\<lambda>center.
        then_do (float_truediv (p * (1 - p)) n) (\<lambda>pn.
        then_do (float_truediv z_squared (4 * n ^ 2)) (\<lambda>z4n.
        then_do (math_sqrt (pn + z4n)) (\<lambda>root.
        then_do (float_truediv (z * root) denominator) (\<lambda>margin.
          let lower = max 0 (center - margin);
              upper = min 1 (center + margin)
          in Inr (lower, upper))))))))))"

text \<open>\<^verbatim>\<open>is_statistically_significant\<close> (line 259).\<close>

definition is_statistically_significant :: "real \<Rightarrow> real \<Rightarrow> bool" where
  "is_statistically_significant p_value alpha = (p_value < alpha)"

section \<open>Fixtures of the test suite\<close>

text \<open>
  The two-variant list the tests build (\<^verbatim>\<open>tests/test_experiment.py\<close>): a variant
  \<^verbatim>\<open>control\<close> at address 0 and a variant \<^verbatim>\<open>treatment\<close> at address 1, with the given
  weights. Every other address holds an unrelated variant with the default weight.
\<close>

definition test_store :: "real \<Rightarrow> real \<Rightarrow> store" where
  "test_store w0 w1 =
     (\<lambda>_. Variant_init [] None)
       (0 := Variant_init ''control'' (Some w0), 1 := Variant_init ''treatment'' (Some w1))"

section \<open>The normalisation loop\<close>

lemma normalize_weights_ok:
  "total_weight \<noteq> 0 \<Longrightarrow> fst (normalize_weights total_weight vs s) = None"
  by (induction vs arbitrary: s) (simp_all add: float_truediv_def)

lemma normalize_weights_outside:
  "a \<notin> set vs \<Longrightarrow> snd (normalize_weights total_weight vs s) a = s a"
  by (induction vs arbitrary: s) (auto simp: float_truediv_def)

lemma normalize_weights_distinct:
  "total_weight \<noteq> 0 \<Longrightarrow> distinct vs \<Longrightarrow> a \<in> set vs \<Longrightarrow>
   snd (normalize_weights total_weight vs s) a = (s a)\<lparr>weight := weight (s a) / total_weight\<rparr>"
proof (induction vs arbitrary: s)
  case Nil
  then show ?case by simp
next
  case (Cons b bs)
  show ?case
  proof (cases "a = b")
    case True
    with Cons.prems have "a \<notin> set bs" by simp
    then show ?thesis
      using Cons.prems True by (simp add: float_truediv_def normalize_weights_outside)
  next
    case False
    with Cons.prems have in_bs: "a \<in> set bs" and dist_bs: "distinct bs" by simp_all
    have "snd (normalize_weights total_weight bs
                 (s(b := (s b)\<lparr>weight := weight (s b) / total_weight\<rparr>))) a
            = ((s(b := (s b)\<lparr>weight := weight (s b) / total_weight\<rparr>)) a)
                \<lparr>weight := weight ((s(b := (s b)\<lparr>weight := weight (s b) / total_weight\<rparr>)) a)
                            / total_weight\<rparr>"
      by (rule Cons.IH [OF Cons.prems(1) dist_bs in_bs])
    with False Cons.prems(1) show ?thesis
      by (simp add: float_truediv_def)
  qed
qed

lemma sum_list_map_divide:
  "sum_list (map (\<lambda>a. f a / (T::real)) xs) = sum_list (map f xs) / T"
  by (induction xs) (simp_all add: add_divide_distrib)

lemma total_weight_of_normalized:
  assumes "T \<noteq> 0" and "distinct vs"
  shows "total_weight_of (snd (normalize_weights T vs s)) vs = total_weight_of s vs / T"
proof -
  have eq: "map (\<lambda>a. weight (snd (normalize_weights T vs s) a)) vs
              = map (\<lambda>a. weight (s a) / T) vs"
    by (rule map_cong [OF refl]) (simp add: normalize_weights_distinct [OF assms])
  show ?thesis
    unfolding total_weight_of_def eq by (rule sum_list_map_divide)
qed

lemma Experiment_init_success:
  assumes "Experiment_init Random now nm vs seed s = (Inr self, s')"
  shows "2 \<le> length vs" and "0 < total_weight_of s vs"
    and "self = \<lparr>name = nm, variants = vs, created_at = now, random_state = Random seed\<rparr>"
    and "s' = snd (normalize_weights (total_weight_of s vs) vs s)"
  using assms
  by (auto simp: Experiment_init_def Let_def split: if_splits prod.splits option.splits)

section \<open>The bucketing loop\<close>

lemma total_weight_of_Cons:
  "total_weight_of s (a # as) = weight (s a) + total_weight_of s as"
  by (simp add: total_weight_of_def)

lemma total_weight_of_Nil: "total_weight_of s [] = 0"
  by (simp add: total_weight_of_def)

lemma first_bucket_None_iff:
  "first_bucket r c vs s = None
     \<longleftrightarrow> (\<forall>k. 0 < k \<and> k \<le> length vs \<longrightarrow> c + cumulative_weight s vs k < r)"
proof (induction vs arbitrary: c)
  case Nil
  then show ?case by simp
next
  case (Cons a as)
  have split_k: "(\<forall>k. 0 < k \<and> k \<le> Suc (length as) \<longrightarrow> P k)
      \<longleftrightarrow> P 1 \<and> (\<forall>k. 0 < k \<and> k \<le> length as \<longrightarrow> P (Suc k))" for P
  proof
    assume h: "\<forall>k. 0 < k \<and> k \<le> Suc (length as) \<longrightarrow> P k"
    then show "P 1 \<and> (\<forall>k. 0 < k \<and> k \<le> length as \<longrightarrow> P (Suc k))" by simp
  next
    assume h: "P 1 \<and> (\<forall>k. 0 < k \<and> k \<le> length as \<longrightarrow> P (Suc k))"
    show "\<forall>k. 0 < k \<and> k \<le> Suc (length as) \<longrightarrow> P k"
    proof (intro allI impI)
      fix k assume k: "0 < k \<and> k \<le> Suc (length as)"
      then obtain m where m: "k = Suc m" by (cases k) auto
      show "P k"
      proof (cases m)
        case 0
        with m h show ?thesis by simp
      next
        case (Suc m')
        with m k h show ?thesis by simp
      qed
    qed
  qed
  show ?case
    by (auto simp: Let_def Cons.IH split_k cumulative_weight_def total_weight_of_Cons
        total_weight_of_Nil add.assoc not_le)
qed

lemma first_bucket_Some_in:
  "first_bucket r c vs s = Some a \<Longrightarrow> a \<in> set vs"
  by (induction vs arbitrary: c) (auto simp: Let_def split: if_splits)

lemma first_bucket_Some_iff:
  "first_bucket r c vs s = Some a
     \<longleftrightarrow> (\<exists>i<length vs. a = vs ! i \<and> r \<le> c + cumulative_weight s vs (Suc i)
            \<and> (\<forall>j<i. c + cumulative_weight s vs (Suc j) < r))"
proof (induction vs arbitrary: c)
  case Nil
  then show ?case by simp
next
  case (Cons b bs)
  let ?c = "c + weight (s b)"
  show ?case
  proof (cases "r \<le> ?c")
    case True
    have "(\<exists>i<length (b # bs). a = (b # bs) ! i \<and> r \<le> c + cumulative_weight s (b # bs) (Suc i)
            \<and> (\<forall>j<i. c + cumulative_weight s (b # bs) (Suc j) < r)) \<longleftrightarrow> a = b"
    proof
      assume "\<exists>i<length (b # bs). a = (b # bs) ! i \<and> r \<le> c + cumulative_weight s (b # bs) (Suc i)
            \<and> (\<forall>j<i. c + cumulative_weight s (b # bs) (Suc j) < r)"
      then obtain i where i: "a = (b # bs) ! i"
        "\<forall>j<i. c + cumulative_weight s (b # bs) (Suc j) < r" by blast
      have "i = 0"
      proof (rule ccontr)
        assume "i \<noteq> 0"
        then have "c + cumulative_weight s (b # bs) (Suc 0) < r" using i(2) by simp
        with True show False by (simp add: cumulative_weight_def total_weight_of_def)
      qed
      with i show "a = b" by simp
    next
      assume "a = b"
      with True show "\<exists>i<length (b # bs). a = (b # bs) ! i \<and> r \<le> c + cumulative_weight s (b # bs) (Suc i)
            \<and> (\<forall>j<i. c + cumulative_weight s (b # bs) (Suc j) < r)"
        by (intro exI [of _ 0]) (simp add: cumulative_weight_def total_weight_of_def)
    qed
    with True show ?thesis by (auto simp: Let_def)
  next
    case False
    have shift: "c + cumulative_weight s (b # bs) (Suc k) = ?c + cumulative_weight s bs k" for k
      by (simp add: cumulative_weight_def total_weight_of_Cons)
    have "(\<exists>i<length (b # bs). a = (b # bs) ! i \<and> r \<le> c + cumulative_weight s (b # bs) (Suc i)
            \<and> (\<forall>j<i. c + cumulative_weight s (b # bs) (Suc j) < r))
        \<longleftrightarrow> (\<exists>i<length bs. a = bs ! i \<and> r \<le> ?c + cumulative_weight s bs (Suc i)
            \<and> (\<forall>j<i. ?c + cumulative_weight s bs (Suc j) < r))" (is "?L \<longleftrightarrow> ?R")
    proof
      assume ?L
      then obtain i where i: "i < length (b # bs)" "a = (b # bs) ! i"
        "r \<le> c + cumulative_weight s (b # bs) (Suc i)"
        "\<forall>j<i. c + cumulative_weight s (b # bs) (Suc j) < r" by blast
      have "i \<noteq> 0"
      proof
        assume "i = 0"
        with i(3) have "r \<le> ?c" by (simp add: cumulative_weight_def total_weight_of_def)
        with False show False by simp
      qed
      then obtain m where m: "i = Suc m" by (cases i) auto
      have "\<forall>j<m. ?c + cumulative_weight s bs (Suc j) < r"
      proof (intro allI impI)
        fix j assume "j < m"
        then have "Suc j < i" using m by simp
        with i(4) have "c + cumulative_weight s (b # bs) (Suc (Suc j)) < r" by blast
        then show "?c + cumulative_weight s bs (Suc j) < r" by (simp only: shift)
      qed
      moreover from i(3) m have "r \<le> ?c + cumulative_weight s bs (Suc m)" by (simp only: shift)
      ultimately show ?R using i(1,2) m by (intro exI [of _ m]) simp
    next
      assume ?R
      then obtain m where m: "m < length bs" "a = bs ! m"
        "r \<le> ?c + cumulative_weight s bs (Suc m)"
        "\<forall>j<m. ?c + cumulative_weight s bs (Suc j) < r" by blast
      have "\<forall>j<Suc m. c + cumulative_weight s (b # bs) (Suc j) < r"
      proof (intro allI impI)
        fix j assume j: "j < Suc m"
        show "c + cumulative_weight s (b # bs) (Suc j) < r"
        proof (cases j)
          case 0
          with False show ?thesis by (simp add: cumulative_weight_def total_weight_of_def)
        next
          case (Suc j')
          with j m(4) have "?c + cumulative_weight s bs (Suc j') < r" by simp
          with Suc show ?thesis by (simp only: shift)
        qed
      qed
      moreover from m(3) have "r \<le> c + cumulative_weight s (b # bs) (Suc (Suc m))"
        by (simp only: shift)
      ultimately show ?L using m(1,2) by (intro exI [of _ "Suc m"]) simp
    qed
    with False Cons.IH [of ?c] show ?thesis by (simp add: Let_def)
  qed
qed

section \<open>Construction\<close>

text \<open>
  Claim C5. The constructor raises exactly when fewer than two variants are supplied or
  the sum of the supplied weights is not positive. The first case raises the
  \<^verbatim>\<open>ValueError\<close> of line 69, the second the one of line 79, and for every list of at
  least two variants with a positive total the constructor returns the experiment: the
  division in the normalisation loop never raises there.
\<close>

theorem Experiment_init_fails_iff:
  "((\<exists>e. fst (Experiment_init Random now nm vs seed s) = Inl e)
       \<longleftrightarrow> length vs < 2 \<or> total_weight_of s vs \<le> 0)
   \<and> (length vs < 2 \<longrightarrow>
        fst (Experiment_init Random now nm vs seed s)
          = Inl (ValueError ''Experiment must have at least 2 variants''))
   \<and> (2 \<le> length vs \<and> total_weight_of s vs \<le> 0 \<longrightarrow>
        fst (Experiment_init Random now nm vs seed s)
          = Inl (ValueError ''Total weight must be positive''))
   \<and> (2 \<le> length vs \<and> 0 < total_weight_of s vs \<longrightarrow>
        fst (Experiment_init Random now nm vs seed s)
          = Inr \<lparr>name = nm, variants = vs, created_at = now, random_state = Random seed\<rparr>)"
  using normalize_weights_ok [of "total_weight_of s vs" vs s]
  by (auto simp: Experiment_init_def Let_def split: prod.splits option.splits)

theorem Experiment_init_fails_iff_witness:
  "fst (Experiment_init (\<lambda>_. ()) 0 ''test_exp'' [0, 1] None (test_store 2 2))
     = Inr \<lparr>name = ''test_exp'', variants = [0, 1], created_at = 0, random_state = ()\<rparr>
   \<and> fst (Experiment_init (\<lambda>_. ()) 0 ''test_exp'' [0] None (test_store 2 2))
     = Inl (ValueError ''Experiment must have at least 2 variants'')
   \<and> fst (Experiment_init (\<lambda>_. ()) 0 ''test_exp'' [0, 1] None (test_store (-1) 1))
     = Inl (ValueError ''Total weight must be positive'')"
  using Experiment_init_fails_iff [of "\<lambda>_. ()" 0 "''test_exp''" "[0, 1]" None "test_store 2 2"]
    Experiment_init_fails_iff [of "\<lambda>_. ()" 0 "''test_exp''" "[0]" None "test_store 2 2"]
    Experiment_init_fails_iff [of "\<lambda>_. ()" 0 "''test_exp''" "[0, 1]" None "test_store (-1) 1"]
  by (simp add: total_weight_of_def test_store_def Variant_init_def)

text \<open>
  Claim C10. When the constructor raises, the store is the one it was given: no variant
  object supplied by the caller has been written to, so every one keeps its weight, its
  counters and its metadata.
\<close>

theorem Experiment_init_failure_keeps_store:
  assumes "fst (Experiment_init Random now nm vs seed s) = Inl e"
  shows "snd (Experiment_init Random now nm vs seed s) = s"
  using assms normalize_weights_ok [of "total_weight_of s vs" vs s]
  by (auto simp: Experiment_init_def Let_def split: prod.splits option.splits if_splits)

theorem Experiment_init_failure_keeps_store_witness:
  "snd (Experiment_init (\<lambda>_. ()) 0 ''test_exp'' [0, 1] None (test_store (-3) 1))
     = test_store (-3) 1"
proof -
  have "fst (Experiment_init (\<lambda>_. ()) 0 ''test_exp'' [0, 1] None (test_store (-3) 1))
          = Inl (ValueError ''Total weight must be positive'')"
    by (simp add: Experiment_init_def total_weight_of_def test_store_def Variant_init_def)
  then show ?thesis by (rule Experiment_init_failure_keeps_store)
qed

text \<open>
  The weights \<open>-1\<close> and \<open>3\<close> have the positive total \<open>2\<close>, so the constructor
  accepts them; the first variant then carries the weight \<open>-1/2\<close>. The constructor
  checks the total only, never a single weight.
\<close>

theorem Experiment_init_weights_not_all_positive:
  "fst (Experiment_init (\<lambda>_. ()) 0 ''test_exp'' [0, 1] None (test_store (-1) 3))
     = Inr \<lparr>name = ''test_exp'', variants = [0, 1], created_at = 0, random_state = ()\<rparr>
   \<and> weight (snd (Experiment_init (\<lambda>_. ()) 0 ''test_exp'' [0, 1] None (test_store (-1) 3)) 0)
     = - 1 / 2"
  by (simp add: Experiment_init_def total_weight_of_def test_store_def Variant_init_def
      float_truediv_def)

text \<open>
  Claim C2, as the code has it. After a successful construction from pairwise different
  variant objects the weights sum to exactly 1, every weight is the supplied weight
  divided by the supplied total, and a weight is positive exactly when the supplied one
  was. (An object listed twice would be divided twice.)
\<close>

theorem Experiment_init_normalized:
  assumes "Experiment_init Random now nm vs seed s = (Inr self, s')" and "distinct vs"
  shows "total_weight_of s' (variants self) = 1
       \<and> (\<forall>a \<in> set (variants self).
            weight (s' a) = weight (s a) / total_weight_of s vs
          \<and> (0 < weight (s' a) \<longleftrightarrow> 0 < weight (s a)))"
proof -
  note init = Experiment_init_success [OF assms(1)]
  let ?T = "total_weight_of s vs"
  from init(2) have T: "?T \<noteq> 0" by simp
  have vs: "variants self = vs" using init(3) by simp
  have "total_weight_of s' vs = ?T / ?T"
    unfolding init(4) by (rule total_weight_of_normalized [OF T assms(2)])
  with T have one: "total_weight_of s' vs = 1" by simp
  have each: "weight (s' a) = weight (s a) / ?T \<and> (0 < weight (s' a) \<longleftrightarrow> 0 < weight (s a))"
    if "a \<in> set vs" for a
  proof -
    have w: "weight (s' a) = weight (s a) / ?T"
      unfolding init(4) by (simp add: normalize_weights_distinct [OF T assms(2) that])
    with init(2) show ?thesis by (simp add: zero_less_divide_iff)
  qed
  show ?thesis
    unfolding vs using one each by blast
qed

theorem Experiment_init_normalized_witness:
  "total_weight_of (snd (Experiment_init (\<lambda>_. ()) 0 ''test_exp'' [0, 1] None (test_store 3 1)))
     [0, 1] = 1
   \<and> weight (snd (Experiment_init (\<lambda>_. ()) 0 ''test_exp'' [0, 1] None (test_store 3 1)) 0)
       = 3 / 4"
proof -
  have init: "Experiment_init (\<lambda>_. ()) 0 ''test_exp'' [0, 1] None (test_store 3 1)
      = (Inr \<lparr>name = ''test_exp'', variants = [0, 1], created_at = 0, random_state = ()\<rparr>,
         snd (Experiment_init (\<lambda>_. ()) 0 ''test_exp'' [0, 1] None (test_store 3 1)))"
    by (simp add: Experiment_init_def total_weight_of_def test_store_def Variant_init_def
        float_truediv_def)
  have d: "distinct [0::nat, 1]" by simp
  from Experiment_init_normalized [OF init d] show ?thesis
    by (simp add: total_weight_of_def test_store_def Variant_init_def)
qed

text \<open>
  The hypothesis of pairwise different objects is needed: a list that names one object
  twice has its weight divided twice, and the constructor leaves a total of \<open>1/2\<close>.
\<close>

lemma Experiment_init_same_object_twice:
  "fst (Experiment_init (\<lambda>_. ()) 0 ''test_exp'' [0, 0] None (test_store 1 1))
     = Inr \<lparr>name = ''test_exp'', variants = [0, 0], created_at = 0, random_state = ()\<rparr>
   \<and> weight (snd (Experiment_init (\<lambda>_. ()) 0 ''test_exp'' [0, 0] None (test_store 1 1)) 0)
     = 1 / 4
   \<and> total_weight_of
       (snd (Experiment_init (\<lambda>_. ()) 0 ''test_exp'' [0, 0] None (test_store 1 1))) [0, 0]
     = 1 / 2"
  by (simp add: Experiment_init_def total_weight_of_def test_store_def Variant_init_def
      float_truediv_def)

section \<open>Recording conversions\<close>

lemma record_conversion_loop_absent:
  "\<forall>a \<in> set vs. Variant.name (s a) \<noteq> nm \<Longrightarrow> record_conversion_loop vs nm s = (False, s)"
  by (induction vs) simp_all

lemma record_conversion_loop_present:
  "\<exists>a \<in> set vs. Variant.name (s a) = nm \<Longrightarrow>
   \<exists>i<length vs. Variant.name (s (vs ! i)) = nm
      \<and> (\<forall>j<i. Variant.name (s (vs ! j)) \<noteq> nm)
      \<and> record_conversion_loop vs nm s
          = (True, s(vs ! i := (s (vs ! i))\<lparr>conversions := conversions (s (vs ! i)) + 1\<rparr>))"
proof (induction vs)
  case Nil
  then show ?case by simp
next
  case (Cons b bs)
  show ?case
  proof (cases "Variant.name (s b) = nm")
    case True
    then show ?thesis
      by (intro exI [of _ 0]) (simp add: Variant_record_conversion_def fun_upd_def)
  next
    case False
    with Cons.prems have "\<exists>a \<in> set bs. Variant.name (s a) = nm" by simp
    from Cons.IH [OF this] obtain i where i: "i < length bs" "Variant.name (s (bs ! i)) = nm"
      "\<forall>j<i. Variant.name (s (bs ! j)) \<noteq> nm"
      "record_conversion_loop bs nm s
          = (True, s(bs ! i := (s (bs ! i))\<lparr>conversions := conversions (s (bs ! i)) + 1\<rparr>))"
      by blast
    have "\<forall>j<Suc i. Variant.name (s ((b # bs) ! j)) \<noteq> nm"
    proof (intro allI impI)
      fix j assume "j < Suc i"
      then show "Variant.name (s ((b # bs) ! j)) \<noteq> nm"
        using False i(3) by (cases j) simp_all
    qed
    with i False show ?thesis
      by (intro exI [of _ "Suc i"]) (simp add: fun_upd_def)
  qed
qed

text \<open>
  Claim C8. \<^verbatim>\<open>record_conversion\<close> on a name that some variant of the experiment
  carries returns \<^verbatim>\<open>True\<close> and adds exactly 1 to the conversion counter of the first
  variant in list order with that name, writing nothing else; on a name no variant
  carries it returns \<^verbatim>\<open>False\<close> and leaves the store as it was.
\<close>

theorem record_conversion_spec:
  "((\<exists>a \<in> set (variants self). Variant.name (s a) = variant_name) \<longrightarrow>
      (\<exists>i<length (variants self).
          Variant.name (s (variants self ! i)) = variant_name
        \<and> (\<forall>j<i. Variant.name (s (variants self ! j)) \<noteq> variant_name)
        \<and> record_conversion self variant_name s
            = (True, s(variants self ! i :=
                 (s (variants self ! i))\<lparr>conversions := conversions (s (variants self ! i)) + 1\<rparr>))))
   \<and> ((\<forall>a \<in> set (variants self). Variant.name (s a) \<noteq> variant_name) \<longrightarrow>
      record_conversion self variant_name s = (False, s))"
  unfolding record_conversion_def
  using record_conversion_loop_present [of "variants self" s variant_name]
    record_conversion_loop_absent [of "variants self" s variant_name]
  by blast

theorem record_conversion_spec_witness:
  "record_conversion
      \<lparr>name = ''test_exp'', variants = [0, 1], created_at = 0, random_state = ()\<rparr>
      ''invalid'' (test_store 1 1) = (False, test_store 1 1)
   \<and> fst (record_conversion
      \<lparr>name = ''test_exp'', variants = [0, 1], created_at = 0, random_state = ()\<rparr>
      ''treatment'' (test_store 1 1))"
proof -
  let ?e = "\<lparr>name = ''test_exp'', variants = [0, 1], created_at = 0, random_state = ()\<rparr>"
  have absent: "\<forall>a \<in> set (variants ?e). Variant.name (test_store 1 1 a) \<noteq> ''invalid''"
    by (simp add: test_store_def Variant_init_def)
  have present: "\<exists>a \<in> set (variants ?e). Variant.name (test_store 1 1 a) = ''treatment''"
    by (simp add: test_store_def Variant_init_def)
  from record_conversion_spec [of ?e "test_store 1 1" "''invalid''"] absent
  have 1: "record_conversion ?e ''invalid'' (test_store 1 1) = (False, test_store 1 1)"
    by blast
  from record_conversion_spec [of ?e "test_store 1 1" "''treatment''"] present
  have 2: "fst (record_conversion ?e ''treatment'' (test_store 1 1))"
    by fastforce
  from 1 2 show ?thesis by blast
qed

section \<open>Assignment\<close>

lemma first_bucket_weights_only:
  "\<forall>a \<in> set vs. weight (s1 a) = weight (s2 a) \<Longrightarrow>
   first_bucket r c vs s1 = first_bucket r c vs s2"
  by (induction vs arbitrary: c) (simp_all add: Let_def)

lemma first_bucket_same_config:
  "map (\<lambda>a. (Variant.name (s1 a), weight (s1 a))) vs1
     = map (\<lambda>a. (Variant.name (s2 a), weight (s2 a))) vs2 \<Longrightarrow>
   map_option (\<lambda>a. Variant.name (s1 a)) (first_bucket r c vs1 s1)
     = map_option (\<lambda>a. Variant.name (s2 a)) (first_bucket r c vs2 s2)"
proof (induction vs1 arbitrary: vs2 c)
  case Nil
  then show ?case by simp
next
  case (Cons a as)
  then obtain b bs where vs2: "vs2 = b # bs" by (cases vs2) auto
  with Cons.prems have hd: "Variant.name (s1 a) = Variant.name (s2 b)" "weight (s1 a) = weight (s2 b)"
    and tl: "map (\<lambda>a. (Variant.name (s1 a), weight (s1 a))) as
               = map (\<lambda>a. (Variant.name (s2 a), weight (s2 a))) bs"
    by simp_all
  from Cons.IH [OF tl, of "c + weight (s2 b)"] hd show ?case
    by (simp add: vs2 Let_def)
qed

lemma last_same_config:
  assumes "map (\<lambda>a. (Variant.name (s1 a), weight (s1 a))) vs1
             = map (\<lambda>a. (Variant.name (s2 a), weight (s2 a))) vs2"
    and "vs1 \<noteq> []"
  shows "Variant.name (s1 (last vs1)) = Variant.name (s2 (last vs2))"
proof -
  from assms have ne2: "vs2 \<noteq> []" by auto
  have "fst (last (map (\<lambda>a. (Variant.name (s1 a), weight (s1 a))) vs1))
          = fst (last (map (\<lambda>a. (Variant.name (s2 a), weight (s2 a))) vs2))"
    by (simp only: assms(1))
  with assms(2) ne2 show ?thesis by (simp add: last_map)
qed

lemma hashed_rand_val_range:
  "0 \<le> hashed_rand_val hash uid nm \<and> hashed_rand_val hash uid nm < 1"
proof -
  have "0 \<le> hash (uid @ nm) mod 10000" "hash (uid @ nm) mod 10000 < 10000"
    by simp_all
  then show ?thesis
    by (simp add: hashed_rand_val_def Let_def)
qed

lemma assign_variant_Some_unfold:
  "assign_variant hash random self (Some uid) s =
     (case first_bucket (hashed_rand_val hash uid (Experiment.name self)) 0 (variants self) s of
        Some a \<Rightarrow> (Inr a, self, s(a := record_exposure (s a)))
      | None \<Rightarrow> (if variants self = [] then (Inl IndexError, self, s)
                 else (Inr (last (variants self)), self,
                       s(last (variants self) := record_exposure (s (last (variants self)))))))"
  by (cases self) (simp add: assign_variant_def draw_rand_val_def Let_def split: option.splits)

text \<open>
  Two constructions under the same name, from pairwise different objects that carry the
  same names and weights in the same order, leave the same names and normalised weights.
\<close>

lemma normalized_config:
  assumes "T \<noteq> 0" and "distinct vs"
  shows "map (\<lambda>a. (Variant.name (snd (normalize_weights T vs s) a),
                    weight (snd (normalize_weights T vs s) a))) vs
           = map (\<lambda>(n, w). (n, w / T)) (map (\<lambda>a. (Variant.name (s a), weight (s a))) vs)"
  by (simp add: normalize_weights_distinct [OF assms])

lemma total_weight_of_config:
  "total_weight_of s vs = sum_list (map snd (map (\<lambda>a. (Variant.name (s a), weight (s a))) vs))"
  by (simp add: total_weight_of_def comp_def)

lemma Experiment_init_same_config:
  assumes init1: "Experiment_init Random1 now1 nm vs1 seed1 s1 = (Inr e1, s1')"
    and init2: "Experiment_init Random2 now2 nm vs2 seed2 s2 = (Inr e2, s2')"
    and dist: "distinct vs1" "distinct vs2"
    and config: "map (\<lambda>a. (Variant.name (s1 a), weight (s1 a))) vs1
                   = map (\<lambda>a. (Variant.name (s2 a), weight (s2 a))) vs2"
  shows "Experiment.name e1 = Experiment.name e2"
    and "map (\<lambda>a. (Variant.name (s1' a), weight (s1' a))) (variants e1)
           = map (\<lambda>a. (Variant.name (s2' a), weight (s2' a))) (variants e2)"
proof -
  note a = Experiment_init_success [OF init1]
  note b = Experiment_init_success [OF init2]
  from a(3) b(3) show "Experiment.name e1 = Experiment.name e2" by simp
  have T: "total_weight_of s1 vs1 = total_weight_of s2 vs2"
    by (simp only: total_weight_of_config config)
  from a(2) have nz: "total_weight_of s1 vs1 \<noteq> 0" by simp
  have "map (\<lambda>a. (Variant.name (s1' a), weight (s1' a))) vs1
          = map (\<lambda>a. (Variant.name (s2' a), weight (s2' a))) vs2"
    unfolding a(4) b(4) T [symmetric]
    by (simp only: normalized_config [OF nz dist(1)] normalized_config [OF nz dist(2)] config)
  with a(3) b(3)
  show "map (\<lambda>a. (Variant.name (s1' a), weight (s1' a))) (variants e1)
           = map (\<lambda>a. (Variant.name (s2' a), weight (s2' a))) (variants e2)"
    by simp
qed

text \<open>
  Claim C3. On an experiment with a non-empty variant list (the constructor admits only
  lists of at least two), \<^verbatim>\<open>assign_variant\<close> returns a variant of the experiment for
  every subject id or none, every hash, every generator and every weights, and the store
  it leaves differs from the one it got only at the returned variant, whose exposure
  counter is higher by exactly 1. When the drawn value lies above every cumulative
  weight, the returned variant is the last of the list.
\<close>

theorem assign_variant_total:
  assumes "variants self \<noteq> []"
  shows "\<exists>a \<in> set (variants self).
           assign_variant hash random self user_id s
             = (Inr a,
                self\<lparr>random_state := snd (draw_rand_val hash random self user_id)\<rparr>,
                s(a := (s a)\<lparr>exposures := exposures (s a) + 1\<rparr>))
         \<and> ((\<forall>k. 0 < k \<and> k \<le> length (variants self) \<longrightarrow>
                cumulative_weight s (variants self) k
                  < fst (draw_rand_val hash random self user_id))
              \<longrightarrow> a = last (variants self))"
proof -
  obtain r g where rg: "draw_rand_val hash random self user_id = (r, g)"
    by (cases "draw_rand_val hash random self user_id")
  show ?thesis
  proof (cases "first_bucket r 0 (variants self) s")
    case None
    then have all: "\<forall>k. 0 < k \<and> k \<le> length (variants self) \<longrightarrow>
                       cumulative_weight s (variants self) k < r"
      by (simp add: first_bucket_None_iff)
    from assms have "last (variants self) \<in> set (variants self)" by simp
    moreover from None assms
    have "assign_variant hash random self user_id s
            = (Inr (last (variants self)), self\<lparr>random_state := g\<rparr>,
               s(last (variants self) := (s (last (variants self)))
                   \<lparr>exposures := exposures (s (last (variants self))) + 1\<rparr>))"
      by (simp add: assign_variant_def rg Let_def record_exposure_def)
    ultimately show ?thesis by (intro bexI [of _ "last (variants self)"]) (simp_all add: rg)
  next
    case (Some a)
    then have "\<not> (\<forall>k. 0 < k \<and> k \<le> length (variants self) \<longrightarrow>
                       0 + cumulative_weight s (variants self) k < r)"
      using first_bucket_None_iff [of r 0 "variants self" s] by simp
    then have notall: "\<not> (\<forall>k. 0 < k \<and> k \<le> length (variants self) \<longrightarrow>
                       cumulative_weight s (variants self) k < r)" by simp
    from Some have "a \<in> set (variants self)" by (rule first_bucket_Some_in)
    moreover from Some
    have "assign_variant hash random self user_id s
            = (Inr a, self\<lparr>random_state := g\<rparr>,
               s(a := (s a)\<lparr>exposures := exposures (s a) + 1\<rparr>))"
      by (simp add: assign_variant_def rg Let_def record_exposure_def)
    ultimately show ?thesis using notall by (intro bexI [of _ a]) (auto simp: rg)
  qed
qed

theorem assign_variant_total_witness:
  "fst (assign_variant (\<lambda>_. 0) (\<lambda>g. (9 / 10, g))
          \<lparr>name = ''test_exp'', variants = [0, 1], created_at = 0, random_state = ()\<rparr>
          None (test_store (1 / 2) (1 / 4))) = Inr 1
   \<and> exposures (snd (snd (assign_variant (\<lambda>_. 0) (\<lambda>g. (9 / 10, g))
          \<lparr>name = ''test_exp'', variants = [0, 1], created_at = 0, random_state = ()\<rparr>
          None (test_store (1 / 2) (1 / 4)))) 1) = 1
   \<and> exposures (snd (snd (assign_variant (\<lambda>_. 0) (\<lambda>g. (9 / 10, g))
          \<lparr>name = ''test_exp'', variants = [0, 1], created_at = 0, random_state = ()\<rparr>
          None (test_store (1 / 2) (1 / 4)))) 0) = 0"
proof -
  let ?e = "\<lparr>name = ''test_exp'', variants = [0, 1], created_at = 0, random_state = ()\<rparr>"
  let ?s = "test_store (1 / 2) (1 / 4)"
  let ?random = "\<lambda>g::unit. (9 / 10 :: real, g)"
  let ?hash = "\<lambda>_::string. 0::int"
  have ne: "variants ?e \<noteq> []" by simp
  have below: "cumulative_weight ?s (variants ?e) k < fst (draw_rand_val ?hash ?random ?e None)"
    if "0 < k \<and> k \<le> length (variants ?e)" for k
  proof -
    from that have "k = 1 \<or> k = 2" by auto
    then show ?thesis
      by (auto simp: cumulative_weight_def total_weight_of_def test_store_def Variant_init_def
          draw_rand_val_def)
  qed
  from assign_variant_total [OF ne, of ?hash ?random None ?s] below
  have "assign_variant ?hash ?random ?e None ?s
          = (Inr (last (variants ?e)),
             ?e\<lparr>random_state := snd (draw_rand_val ?hash ?random ?e None)\<rparr>,
             ?s(last (variants ?e) := (?s (last (variants ?e)))
                  \<lparr>exposures := exposures (?s (last (variants ?e))) + 1\<rparr>))"
    by blast
  then show ?thesis
    by (simp add: test_store_def Variant_init_def)
qed

text \<open>
  Claim C1. With a subject id, the drawn value is \<open>(hash (id + name) mod 10000) / 10000\<close>
  and lies in \<open>[0, 1)\<close>; the variant returned is the first in list order whose
  cumulative weight is at least that value; the generator is not consulted. Two
  experiments with the same name whose variant lists carry the same names and weights in
  the same order, in whatever stores and with whatever counters, return variants of the
  same name; and a second call on the state the first one left returns the same variant.
\<close>

theorem assign_variant_deterministic:
  assumes same_name: "Experiment.name e1 = Experiment.name e2"
    and same_config:
      "map (\<lambda>a. (Variant.name (s1 a), weight (s1 a))) (variants e1)
         = map (\<lambda>a. (Variant.name (s2 a), weight (s2 a))) (variants e2)"
  shows "0 \<le> hashed_rand_val hash uid (Experiment.name e1)
       \<and> hashed_rand_val hash uid (Experiment.name e1) < 1
       \<and> (\<forall>i<length (variants e1).
             hashed_rand_val hash uid (Experiment.name e1)
               \<le> cumulative_weight s1 (variants e1) (Suc i)
           \<and> (\<forall>j<i. cumulative_weight s1 (variants e1) (Suc j)
                        < hashed_rand_val hash uid (Experiment.name e1))
           \<longrightarrow> fst (assign_variant hash random1 e1 (Some uid) s1) = Inr (variants e1 ! i))
       \<and> map_sum id (\<lambda>a. Variant.name (s1 a))
            (fst (assign_variant hash random1 e1 (Some uid) s1))
         = map_sum id (\<lambda>a. Variant.name (s2 a))
            (fst (assign_variant hash random2 e2 (Some uid) s2))
       \<and> (case assign_variant hash random1 e1 (Some uid) s1 of
            (res, e1', s1') \<Rightarrow>
              fst (assign_variant hash random1 e1' (Some uid) s1') = res)"
proof -
  let ?r = "hashed_rand_val hash uid (Experiment.name e1)"
  have first: "fst (assign_variant hash random1 e1 (Some uid) s1) = Inr (variants e1 ! i)"
    if "i < length (variants e1)" "?r \<le> cumulative_weight s1 (variants e1) (Suc i)"
      "\<forall>j<i. cumulative_weight s1 (variants e1) (Suc j) < ?r" for i
  proof -
    from that have "first_bucket ?r 0 (variants e1) s1 = Some (variants e1 ! i)"
      by (subst first_bucket_Some_iff) auto
    then show ?thesis by (simp add: assign_variant_Some_unfold)
  qed
  have names: "map_sum id (\<lambda>a. Variant.name (s1 a))
            (fst (assign_variant hash random1 e1 (Some uid) s1))
         = map_sum id (\<lambda>a. Variant.name (s2 a))
            (fst (assign_variant hash random2 e2 (Some uid) s2))"
  proof -
    from same_config have empty: "variants e1 = [] \<longleftrightarrow> variants e2 = []" by auto
    note fb = first_bucket_same_config [OF same_config, of ?r 0]
    show ?thesis
    proof (cases "first_bucket ?r 0 (variants e1) s1")
      case None
      with fb have none2: "first_bucket ?r 0 (variants e2) s2 = None" by simp
      show ?thesis
      proof (cases "variants e1 = []")
        case True
        with None none2 empty show ?thesis
          by (simp add: assign_variant_Some_unfold same_name [symmetric])
      next
        case False
        with None none2 empty last_same_config [OF same_config False] show ?thesis
          by (simp add: assign_variant_Some_unfold same_name [symmetric])
      qed
    next
      case (Some a)
      with fb obtain b where "first_bucket ?r 0 (variants e2) s2 = Some b"
        "Variant.name (s1 a) = Variant.name (s2 b)" by (cases "first_bucket ?r 0 (variants e2) s2") auto
      with Some show ?thesis
        by (simp add: assign_variant_Some_unfold same_name [symmetric])
    qed
  qed
  have again: "case assign_variant hash random1 e1 (Some uid) s1 of
            (res, e1', s1') \<Rightarrow>
              fst (assign_variant hash random1 e1' (Some uid) s1') = res"
  proof -
    have same: "first_bucket ?r 0 (variants e1) (s1(a := record_exposure (s1 a)))
                  = first_bucket ?r 0 (variants e1) s1" for a
      by (rule first_bucket_weights_only) (simp add: record_exposure_def)
    show ?thesis
      by (cases "first_bucket ?r 0 (variants e1) s1")
        (simp_all add: assign_variant_Some_unfold same)
  qed
  from hashed_rand_val_range [of hash uid "Experiment.name e1"] first names again
  show ?thesis by blast
qed

theorem assign_variant_deterministic_witness:
  "fst (assign_variant (\<lambda>w. int (length w)) (\<lambda>g. (0, g))
          \<lparr>name = ''test_exp'', variants = [0, 1], created_at = 0, random_state = ()\<rparr>
          (Some ''user123'') (test_store (1 / 2) (1 / 2))) = Inr 0
   \<and> map_sum id
        (\<lambda>a. Variant.name
           (((\<lambda>_. Variant_init [] None)
               (5 := Variant_init ''control'' (Some (1 / 2)),
                7 := Variant_init ''treatment'' (Some (1 / 2)))) a))
        (fst (assign_variant (\<lambda>w. int (length w)) (\<lambda>g. (1, g))
          \<lparr>name = ''test_exp'', variants = [5, 7], created_at = 9, random_state = ()\<rparr>
          (Some ''user123'')
          ((\<lambda>_. Variant_init [] None)
               (5 := Variant_init ''control'' (Some (1 / 2)),
                7 := Variant_init ''treatment'' (Some (1 / 2))))))
      = Inr ''control''"
proof -
  let ?e1 = "\<lparr>name = ''test_exp'', variants = [0, 1], created_at = 0, random_state = ()\<rparr>"
  let ?e2 = "\<lparr>name = ''test_exp'', variants = [5, 7], created_at = 9, random_state = ()\<rparr>"
  let ?s1 = "test_store (1 / 2) (1 / 2)"
  let ?s2 = "(\<lambda>_. Variant_init [] None)
               (5 := Variant_init ''control'' (Some (1 / 2)),
                7 := Variant_init ''treatment'' (Some (1 / 2)))"
  let ?hash = "\<lambda>w::string. int (length w)"
  have same_name: "Experiment.name ?e1 = Experiment.name ?e2" by simp
  have same_config:
    "map (\<lambda>a. (Variant.name (?s1 a), weight (?s1 a))) (variants ?e1)
       = map (\<lambda>a. (Variant.name (?s2 a), weight (?s2 a))) (variants ?e2)"
    by (simp add: test_store_def Variant_init_def)
  note det = assign_variant_deterministic [OF same_name same_config,
      of ?hash "''user123''" "\<lambda>g. (0, g)" "\<lambda>g. (1, g)"]
  have r: "hashed_rand_val ?hash ''user123'' (Experiment.name ?e1) = 15 / 10000"
    by (simp add: hashed_rand_val_def)
  have bucket: "hashed_rand_val ?hash ''user123'' (Experiment.name ?e1)
                  \<le> cumulative_weight ?s1 (variants ?e1) (Suc 0)"
    unfolding r by (simp add: cumulative_weight_def total_weight_of_def test_store_def
        Variant_init_def)
  from det bucket
  have first: "fst (assign_variant ?hash (\<lambda>g. (0, g)) ?e1 (Some ''user123'') ?s1)
                 = Inr (variants ?e1 ! 0)"
    by force
  from det
  have "map_sum id (\<lambda>a. Variant.name (?s1 a))
            (fst (assign_variant ?hash (\<lambda>g. (0, g)) ?e1 (Some ''user123'') ?s1))
         = map_sum id (\<lambda>a. Variant.name (?s2 a))
            (fst (assign_variant ?hash (\<lambda>g. (1, g)) ?e2 (Some ''user123'') ?s2))"
    by blast
  with first show ?thesis
    by (simp add: test_store_def Variant_init_def)
qed

section \<open>Conversion rate\<close>

text \<open>
  Claim C4. \<^verbatim>\<open>conversion_rate\<close> never raises; it is 0 when there are no exposures and
  \<open>conversions / exposures\<close> otherwise, and whenever \<open>0 \<le> conversions \<le> exposures\<close> it
  lies between 0 and 1.
\<close>

theorem conversion_rate_spec:
  "conversion_rate v
     = Inr (if exposures v = 0 then 0
            else real_of_int (conversions v) / real_of_int (exposures v))
   \<and> (0 \<le> conversions v \<and> conversions v \<le> exposures v \<longrightarrow>
        (\<exists>r. conversion_rate v = Inr r \<and> 0 \<le> r \<and> r \<le> 1))"
proof -
  have eq: "conversion_rate v
     = Inr (if exposures v = 0 then 0
            else real_of_int (conversions v) / real_of_int (exposures v))"
    by (simp add: conversion_rate_def int_truediv_def)
  have "0 \<le> real_of_int (conversions v) / real_of_int (exposures v)
      \<and> real_of_int (conversions v) / real_of_int (exposures v) \<le> 1"
    if "0 \<le> conversions v" "conversions v \<le> exposures v" "exposures v \<noteq> 0"
  proof -
    from that have pos: "0 < real_of_int (exposures v)" by simp
    from that(1) have "0 \<le> real_of_int (conversions v)" by simp
    moreover from that(2) have "real_of_int (conversions v) \<le> real_of_int (exposures v)" by simp
    ultimately show ?thesis using pos by (simp add: divide_le_eq)
  qed
  with eq show ?thesis by auto
qed

theorem conversion_rate_spec_witness:
  "conversion_rate ((Variant_init ''control'' None)\<lparr>exposures := 100, conversions := 25\<rparr>)
     = Inr (1 / 4)
   \<and> conversion_rate (Variant_init ''control'' None) = Inr 0"
  using conversion_rate_spec [of "(Variant_init ''control'' None)\<lparr>exposures := 100, conversions := 25\<rparr>"]
    conversion_rate_spec [of "Variant_init ''control'' None"]
  by (simp add: Variant_init_def)

section \<open>Significance threshold\<close>

text \<open>
  Claim C9. \<^verbatim>\<open>is_statistically_significant\<close> is true exactly when the p-value is
  strictly below alpha; with both equal to 0.05 it is false.
\<close>

theorem is_statistically_significant_strict:
  "(is_statistically_significant p_value alpha \<longleftrightarrow> p_value < alpha)
   \<and> \<not> is_statistically_significant (5 / 100) (5 / 100)"
  by (simp add: is_statistically_significant_def)

theorem is_statistically_significant_strict_witness:
  "is_statistically_significant (1 / 100) (5 / 100)
   \<and> \<not> is_statistically_significant (5 / 100) (5 / 100)"
  using is_statistically_significant_strict [of "1 / 100" "5 / 100"]
  by simp

section \<open>Wilson interval\<close>

lemma wilson_radicand_nonneg:
  fixes n p z :: real
  assumes "0 < n" "0 \<le> p" "p \<le> 1"
  shows "0 \<le> p * (1 - p) / n + z\<^sup>2 / (4 * n\<^sup>2)"
proof -
  from assms have "0 \<le> p * (1 - p)" by simp
  with assms(1) have "0 \<le> p * (1 - p) / n" by simp
  moreover have "0 \<le> z\<^sup>2 / (4 * n\<^sup>2)" by simp
  ultimately show ?thesis by simp
qed

lemma wilson_offset_bound:
  fixes n p z :: real
  assumes "0 < n" "0 \<le> p" "p \<le> 1"
  shows "\<bar>z / n * (p - 1 / 2)\<bar> \<le> sqrt (p * (1 - p) / n + z\<^sup>2 / (4 * n\<^sup>2))"
proof -
  from assms have q: "0 \<le> p * (1 - p)" by simp
  have sq: "(z / n * (p - 1 / 2))\<^sup>2 = z\<^sup>2 / (4 * n\<^sup>2) - z\<^sup>2 * (p * (1 - p)) / n\<^sup>2"
    using assms(1) by (simp add: power2_eq_square field_simps)
  have "0 \<le> z\<^sup>2 * (p * (1 - p)) / n\<^sup>2" using q by simp
  moreover have "0 \<le> p * (1 - p) / n" using q assms(1) by simp
  ultimately have "(z / n * (p - 1 / 2))\<^sup>2 \<le> p * (1 - p) / n + z\<^sup>2 / (4 * n\<^sup>2)"
    unfolding sq by linarith
  then have "sqrt ((z / n * (p - 1 / 2))\<^sup>2) \<le> sqrt (p * (1 - p) / n + z\<^sup>2 / (4 * n\<^sup>2))"
    by (rule real_sqrt_le_mono)
  then show ?thesis by simp
qed

lemma wilson_contains:
  fixes n p z :: real
  assumes "0 < n" "0 \<le> p" "p \<le> 1" "0 \<le> z"
  shows "(p + z\<^sup>2 / (2 * n)) / (1 + z\<^sup>2 / n)
           - z * sqrt (p * (1 - p) / n + z\<^sup>2 / (4 * n\<^sup>2)) / (1 + z\<^sup>2 / n) \<le> p"
    and "p \<le> (p + z\<^sup>2 / (2 * n)) / (1 + z\<^sup>2 / n)
           + z * sqrt (p * (1 - p) / n + z\<^sup>2 / (4 * n\<^sup>2)) / (1 + z\<^sup>2 / n)"
proof -
  define D where "D = 1 + z\<^sup>2 / n"
  define R where "R = sqrt (p * (1 - p) / n + z\<^sup>2 / (4 * n\<^sup>2))"
  define A where "A = z / n * (p - 1 / 2)"
  define C where "C = p + z\<^sup>2 / (2 * n)"
  from assms(1) have "0 \<le> z\<^sup>2 / n" by simp
  then have D: "0 < D" unfolding D_def by linarith
  have diff: "p * D - C = z * A"
    unfolding D_def C_def A_def using assms(1) by (simp add: power2_eq_square field_simps)
  have "\<bar>A\<bar> \<le> R"
    unfolding A_def R_def by (rule wilson_offset_bound [OF assms(1-3)])
  then have bounds: "- R \<le> A" "A \<le> R" by linarith+
  have "z * (- R) \<le> z * A" by (rule mult_left_mono [OF bounds(1) assms(4)])
  moreover have "z * A \<le> z * R" by (rule mult_left_mono [OF bounds(2) assms(4)])
  ultimately have "- (z * R) \<le> z * A" "z * A \<le> z * R" by simp_all
  with diff have lo: "C - z * R \<le> p * D" and hi: "p * D \<le> C + z * R" by simp_all
  have "C / D - z * R / D = (C - z * R) / D"
    by (simp add: diff_divide_distrib)
  also from lo D have "\<dots> \<le> p" by (simp add: divide_le_eq)
  finally have 1: "C / D - z * R / D \<le> p" .
  have "p \<le> (C + z * R) / D"
    using hi D by (simp add: le_divide_eq)
  also have "\<dots> = C / D + z * R / D"
    by (simp add: add_divide_distrib)
  finally have 2: "p \<le> C / D + z * R / D" .
  from 1 show "(p + z\<^sup>2 / (2 * n)) / (1 + z\<^sup>2 / n)
           - z * sqrt (p * (1 - p) / n + z\<^sup>2 / (4 * n\<^sup>2)) / (1 + z\<^sup>2 / n) \<le> p"
    unfolding D_def R_def C_def .
  from 2 show "p \<le> (p + z\<^sup>2 / (2 * n)) / (1 + z\<^sup>2 / n)
           + z * sqrt (p * (1 - p) / n + z\<^sup>2 / (4 * n\<^sup>2)) / (1 + z\<^sup>2 / n)"
    unfolding D_def R_def C_def .
qed

lemma calculate_confidence_interval_valid:
  assumes "0 < n" "0 \<le> c" "c \<le> n" "0 < cl" "cl < 1"
  shows "calculate_confidence_interval norm_ppf c n cl =
     (let p = real_of_int c / real_of_int n;
          z = norm_ppf (1 - (1 - cl) / 2);
          center = (p + z\<^sup>2 / (2 * real_of_int n)) / (1 + z\<^sup>2 / real_of_int n);
          margin = z * sqrt (p * (1 - p) / real_of_int n + z\<^sup>2 / (4 * (real_of_int n)\<^sup>2))
                     / (1 + z\<^sup>2 / real_of_int n)
      in Inr (max 0 (center - margin), min 1 (center + margin)))"
proof -
  define z where "z = norm_ppf (1 - (1 - cl) / 2)"
  define p where "p = real_of_int c / real_of_int n"
  from assms have n: "0 < real_of_int n" by simp
  from assms n have p: "0 \<le> p" "p \<le> 1" by (simp_all add: p_def divide_le_eq)
  have "0 \<le> z\<^sup>2 / real_of_int n" using n by simp
  then have D: "1 + z\<^sup>2 / real_of_int n \<noteq> 0" by linarith
  have R: "\<not> p * (1 - p) / real_of_int n + z\<^sup>2 / (4 * (real_of_int n)\<^sup>2) < 0"
    using wilson_radicand_nonneg [OF n p, of z] by simp
  from assms have guards: "\<not> n \<le> 0" "\<not> (c < 0 \<or> n < c)" "0 < cl \<and> cl < 1" "n \<noteq> 0"
    by simp_all
  show ?thesis
    unfolding calculate_confidence_interval_def
    using guards D R n
    by (simp add: Let_def then_do_def int_truediv_def float_truediv_def math_sqrt_def
        z_def [symmetric] p_def [symmetric])
qed

text \<open>
  Claim C6. \<^verbatim>\<open>calculate_confidence_interval\<close> raises exactly when the exposures are not
  positive, the conversions lie outside \<open>[0, exposures]\<close> or the confidence level lies
  outside \<open>(0, 1)\<close>: on valid input neither a division nor the square root raises. On
  valid input, where the quantile \<^verbatim>\<open>norm.ppf\<close> returns is not negative (as the normal
  quantile is at every probability of at least one half), the bounds returned satisfy
  \<open>0 \<le> lower \<le> conversions / exposures \<le> upper \<le> 1\<close>.
\<close>

theorem calculate_confidence_interval_spec:
  "((\<exists>e. calculate_confidence_interval norm_ppf c n cl = Inl e)
       \<longleftrightarrow> n \<le> 0 \<or> c < 0 \<or> n < c \<or> \<not> (0 < cl \<and> cl < 1))
   \<and> (0 < n \<and> 0 \<le> c \<and> c \<le> n \<and> 0 < cl \<and> cl < 1
        \<and> 0 \<le> norm_ppf (1 - (1 - cl) / 2) \<longrightarrow>
        (\<exists>lower upper.
            calculate_confidence_interval norm_ppf c n cl = Inr (lower, upper)
          \<and> 0 \<le> lower \<and> lower \<le> real_of_int c / real_of_int n
          \<and> real_of_int c / real_of_int n \<le> upper \<and> upper \<le> 1))"
proof -
  have fails: "\<exists>e. calculate_confidence_interval norm_ppf c n cl = Inl e"
    if "n \<le> 0 \<or> c < 0 \<or> n < c \<or> \<not> (0 < cl \<and> cl < 1)"
    using that by (auto simp: calculate_confidence_interval_def)
  have succeeds: "\<not> (\<exists>e. calculate_confidence_interval norm_ppf c n cl = Inl e)"
    if "\<not> (n \<le> 0 \<or> c < 0 \<or> n < c \<or> \<not> (0 < cl \<and> cl < 1))"
  proof -
    from that have "0 < n" "0 \<le> c" "c \<le> n" "0 < cl" "cl < 1" by auto
    from calculate_confidence_interval_valid [OF this] show ?thesis
      by (simp add: Let_def)
  qed
  have bounds: "\<exists>lower upper.
            calculate_confidence_interval norm_ppf c n cl = Inr (lower, upper)
          \<and> 0 \<le> lower \<and> lower \<le> real_of_int c / real_of_int n
          \<and> real_of_int c / real_of_int n \<le> upper \<and> upper \<le> 1"
    if v: "0 < n" "0 \<le> c" "c \<le> n" "0 < cl" "cl < 1" and z: "0 \<le> norm_ppf (1 - (1 - cl) / 2)"
  proof -
    define p where "p = real_of_int c / real_of_int n"
    from v have n: "0 < real_of_int n" by simp
    from v n have p: "0 \<le> p" "p \<le> 1" by (simp_all add: p_def divide_le_eq)
    note w = wilson_contains [OF n p z]
    from calculate_confidence_interval_valid [OF v, of norm_ppf] w p show ?thesis
      by (simp add: Let_def p_def [symmetric])
  qed
  from fails succeeds bounds show ?thesis by blast
qed

theorem calculate_confidence_interval_spec_witness:
  "(\<exists>lower upper.
      calculate_confidence_interval (\<lambda>q. 2) 50 100 (95 / 100) = Inr (lower, upper)
    \<and> 0 \<le> lower \<and> lower \<le> 1 / 2 \<and> 1 / 2 \<le> upper \<and> upper \<le> 1)
   \<and> (\<exists>e. calculate_confidence_interval (\<lambda>q. 2) 101 100 (95 / 100) = Inl e)"
  using calculate_confidence_interval_spec [of "\<lambda>q. 2" 50 100 "95 / 100"]
    calculate_confidence_interval_spec [of "\<lambda>q. 2" 101 100 "95 / 100"]
  by simp

section \<open>Two-proportion z-test\<close>

lemma pooled_radicand_negative_iff:
  fixes ca cb ea eb :: int
  assumes "0 < ea" "0 < eb"
  shows "real_of_int (ca + cb) / real_of_int (ea + eb)
           * (1 - real_of_int (ca + cb) / real_of_int (ea + eb))
           * (1 / real_of_int ea + 1 / real_of_int eb) < 0
         \<longleftrightarrow> ca + cb < 0 \<or> ea + eb < ca + cb"
proof -
  define P where "P = real_of_int (ca + cb) / real_of_int (ea + eb)"
  define K where "K = 1 / real_of_int ea + 1 / real_of_int eb"
  from assms have K: "0 < K" unfolding K_def by (simp add: add_pos_pos)
  from assms have E: "0 < real_of_int (ea + eb)" by simp
  have neg: "P < 0 \<longleftrightarrow> ca + cb < 0"
    unfolding P_def using E by (simp add: divide_less_0_iff del: of_int_add)
  have big: "1 < P \<longleftrightarrow> ea + eb < ca + cb"
    unfolding P_def using E by (simp add: less_divide_eq del: of_int_add)
  have "P * (1 - P) * K < 0 \<longleftrightarrow> P * (1 - P) < 0"
    using K by (simp add: mult_less_0_iff)
  also have "\<dots> \<longleftrightarrow> P < 0 \<or> 1 < P"
    by (auto simp: mult_less_0_iff)
  finally show ?thesis
    unfolding P_def [symmetric] K_def [symmetric] neg big .
qed

lemma pooled_radicand_zero_iff:
  fixes ca cb ea eb :: int
  assumes "0 < ea" "0 < eb"
  shows "real_of_int (ca + cb) / real_of_int (ea + eb)
           * (1 - real_of_int (ca + cb) / real_of_int (ea + eb))
           * (1 / real_of_int ea + 1 / real_of_int eb) = 0
         \<longleftrightarrow> ca + cb = 0 \<or> ca + cb = ea + eb"
proof -
  define P where "P = real_of_int (ca + cb) / real_of_int (ea + eb)"
  define K where "K = 1 / real_of_int ea + 1 / real_of_int eb"
  from assms have K: "K \<noteq> 0" unfolding K_def using add_pos_pos [of "1 / real_of_int ea" "1 / real_of_int eb"] by simp
  from assms have E: "real_of_int (ea + eb) \<noteq> 0" by simp
  have zero: "P = 0 \<longleftrightarrow> ca + cb = 0"
    unfolding P_def using E by (simp del: of_int_add)
  have one: "P = 1 \<longleftrightarrow> ca + cb = ea + eb"
    unfolding P_def using E by (auto simp del: of_int_add)
  have "P * (1 - P) * K = 0 \<longleftrightarrow> P = 0 \<or> P = 1"
    using K by auto
  then show ?thesis
    unfolding P_def [symmetric] K_def [symmetric] zero one .
qed

lemma z_test_proportions_valid:
  assumes "0 < ea" "0 < eb"
  shows "z_test_proportions norm_cdf ca ea cb eb two_tailed =
     (let p_a = real_of_int ca / real_of_int ea;
          p_b = real_of_int cb / real_of_int eb;
          p_pooled = real_of_int (ca + cb) / real_of_int (ea + eb);
          radicand = p_pooled * (1 - p_pooled) * (1 / real_of_int ea + 1 / real_of_int eb)
      in if radicand < 0 then Inl (ValueError ''math domain error'')
         else if sqrt radicand = 0 then Inr (0, 1, 0)
         else Inr ((p_a - p_b) / sqrt radicand,
                   (if two_tailed then 2 * (1 - norm_cdf \<bar>(p_a - p_b) / sqrt radicand\<bar>)
                    else 1 - norm_cdf ((p_a - p_b) / sqrt radicand)),
                   sqrt radicand))"
proof -
  from assms have nz: "ea \<noteq> 0" "eb \<noteq> 0" "ea + eb \<noteq> 0" "\<not> (ea \<le> 0 \<or> eb \<le> 0)" by simp_all
  show ?thesis
    unfolding z_test_proportions_def
    using nz
    by (simp add: Let_def then_do_def int_truediv_def float_truediv_def math_sqrt_def
        del: of_int_add)
qed

text \<open>
  With 150 conversions out of 100 exposures in both groups the exposures are positive,
  the pooled proportion is \<open>3/2\<close>, the radicand is negative and \<^verbatim>\<open>math.sqrt\<close> raises:
  the function fails although no exposure count is \<open>\<le> 0\<close>.
\<close>

theorem z_test_proportions_domain_error:
  "z_test_proportions (\<lambda>x. 1 / 2) 150 100 150 100 True
     = Inl (ValueError ''math domain error'')"
  by (simp add: z_test_proportions_def then_do_def int_truediv_def math_sqrt_def)

text \<open>
  Claim C7, as the code has it. \<^verbatim>\<open>z_test_proportions\<close> raises its validation error when
  an exposure count is \<open>\<le> 0\<close>. With positive exposures it raises exactly when the
  pooled conversions lie outside \<open>[0, exposures_a + exposures_b]\<close>, and then with the
  domain error of the square root. With positive exposures and pooled conversions in
  that range, the pooled standard error is 0 exactly at the two ends of the range, where
  \<open>(0, 1, 0)\<close> is returned; strictly inside, the result is the z-score, the p-value
  (two-tailed or one-tailed) and the pooled standard error.
\<close>

theorem z_test_proportions_spec:
  "(ea \<le> 0 \<or> eb \<le> 0 \<longrightarrow>
      z_test_proportions norm_cdf ca ea cb eb two_tailed
        = Inl (ValueError ''Exposures must be positive''))
   \<and> (0 < ea \<and> 0 < eb \<longrightarrow>
        ((\<exists>e. z_test_proportions norm_cdf ca ea cb eb two_tailed = Inl e)
           \<longleftrightarrow> ca + cb < 0 \<or> ea + eb < ca + cb)
      \<and> (ca + cb < 0 \<or> ea + eb < ca + cb \<longrightarrow>
           z_test_proportions norm_cdf ca ea cb eb two_tailed
             = Inl (ValueError ''math domain error''))
      \<and> (ca + cb = 0 \<or> ca + cb = ea + eb \<longrightarrow>
           z_test_proportions norm_cdf ca ea cb eb two_tailed = Inr (0, 1, 0))
      \<and> (0 < ca + cb \<and> ca + cb < ea + eb \<longrightarrow>
           (let p_a = real_of_int ca / real_of_int ea;
                p_b = real_of_int cb / real_of_int eb;
                p_pooled = real_of_int (ca + cb) / real_of_int (ea + eb);
                se = sqrt (p_pooled * (1 - p_pooled)
                             * (1 / real_of_int ea + 1 / real_of_int eb));
                z_score = (p_a - p_b) / se
            in se \<noteq> 0
             \<and> z_test_proportions norm_cdf ca ea cb eb two_tailed
                 = Inr (z_score,
                        (if two_tailed then 2 * (1 - norm_cdf \<bar>z_score\<bar>)
                         else 1 - norm_cdf z_score),
                        se))))"
proof -
  have invalid: "z_test_proportions norm_cdf ca ea cb eb two_tailed
        = Inl (ValueError ''Exposures must be positive'')" if "ea \<le> 0 \<or> eb \<le> 0"
    using that by (simp add: z_test_proportions_def)
  have valid: ?thesis if pos: "0 < ea" "0 < eb"
  proof -
    define rad where "rad = real_of_int (ca + cb) / real_of_int (ea + eb)
           * (1 - real_of_int (ca + cb) / real_of_int (ea + eb))
           * (1 / real_of_int ea + 1 / real_of_int eb)"
    note neg = pooled_radicand_negative_iff [OF pos, of ca cb, folded rad_def]
    note zero = pooled_radicand_zero_iff [OF pos, of ca cb, folded rad_def]
    note unfolded = z_test_proportions_valid [OF pos, of norm_cdf ca cb two_tailed,
        unfolded Let_def, folded rad_def]
    have a: "(\<exists>e. z_test_proportions norm_cdf ca ea cb eb two_tailed = Inl e)
           \<longleftrightarrow> ca + cb < 0 \<or> ea + eb < ca + cb"
      unfolding unfolded neg [symmetric] by simp
    have b: "z_test_proportions norm_cdf ca ea cb eb two_tailed
             = Inl (ValueError ''math domain error'')" if "ca + cb < 0 \<or> ea + eb < ca + cb"
      using that unfolding unfolded neg [symmetric] by simp
    have c: "z_test_proportions norm_cdf ca ea cb eb two_tailed = Inr (0, 1, 0)"
      if "ca + cb = 0 \<or> ca + cb = ea + eb"
    proof -
      from that zero have "rad = 0" by blast
      then show ?thesis unfolding unfolded by simp
    qed
    have d: "sqrt rad \<noteq> 0
             \<and> z_test_proportions norm_cdf ca ea cb eb two_tailed
                 = Inr ((real_of_int ca / real_of_int ea - real_of_int cb / real_of_int eb)
                          / sqrt rad,
                        (if two_tailed
                         then 2 * (1 - norm_cdf \<bar>(real_of_int ca / real_of_int ea
                                        - real_of_int cb / real_of_int eb) / sqrt rad\<bar>)
                         else 1 - norm_cdf ((real_of_int ca / real_of_int ea
                                        - real_of_int cb / real_of_int eb) / sqrt rad)),
                        sqrt rad)"
      if "0 < ca + cb \<and> ca + cb < ea + eb"
    proof -
      from that have "\<not> (ca + cb < 0 \<or> ea + eb < ca + cb)" by simp
      with neg have nn: "\<not> rad < 0" by blast
      from that have "\<not> (ca + cb = 0 \<or> ca + cb = ea + eb)" by simp
      with zero have nz: "rad \<noteq> 0" by blast
      from nn nz show ?thesis unfolding unfolded by simp
    qed
    from pos a b c d show ?thesis
      unfolding Let_def rad_def by simp
  qed
  from invalid valid show ?thesis by fastforce
qed

theorem z_test_proportions_spec_witness:
  "z_test_proportions (\<lambda>x. 1 / 2) 0 100 0 100 True = Inr (0, 1, 0)
   \<and> z_test_proportions (\<lambda>x. 1 / 2) 10 0 10 100 True
       = Inl (ValueError ''Exposures must be positive'')
   \<and> (\<exists>z_score p_value se.
         z_test_proportions (\<lambda>x. 1 / 2) 100 1000 200 1000 True = Inr (z_score, p_value, se)
       \<and> se \<noteq> 0)"
  using z_test_proportions_spec [of 100 100 "\<lambda>x. 1 / 2" 0 0 True]
    z_test_proportions_spec [of 0 100 "\<lambda>x. 1 / 2" 10 10 True]
    z_test_proportions_spec [of 1000 1000 "\<lambda>x. 1 / 2" 100 200 True]
  by (simp add: Let_def)

end
